theory Spec2Isabelle
  imports Main "HOL-Library.Sublist" "HOL-Library.AList"
begin

section \<open>Strings and dictionaries\<close>

text \<open>
  Strings are lists of characters. The scripts only ever compare, search and measure
  text, so a Python \<open>str\<close> is read as ASCII text: one \<open>char\<close> per code point,
  \<open>len\<close> is \<open>length\<close>, and \<open>str.lower\<close> maps \<open>A\<close>..\<open>Z\<close> to \<open>a\<close>..\<open>z\<close>
  and leaves every other character alone.

  \<open>a in b\<close> on two strings is \<open>sublist a b\<close> (a contiguous occurrence),
  \<open>s.startswith(p)\<close> is \<open>prefix p s\<close>.

  A Python \<open>dict\<close> keeps insertion order; it is an association list, and the
  assignment \<open>d[k] = v\<close> is \<open>AList.update k v d\<close>: an existing key keeps its place and
  takes the new value, a new key goes to the end.
\<close>

definition lower_char :: "char \<Rightarrow> char" where
  "lower_char c =
     (let n = (of_char c :: nat) in if 65 \<le> n \<and> n \<le> 90 then char_of (n + 32) else c)"

definition lower :: "string \<Rightarrow> string" where
  "lower s = map lower_char s"

definition is_space :: "char \<Rightarrow> bool" where
  "is_space c = (let n = (of_char c :: nat) in n = 32 \<or> (9 \<le> n \<and> n \<le> 13) \<or> (28 \<le> n \<and> n \<le> 31))"

definition strip :: "string \<Rightarrow> string" where
  "strip s = rev (dropWhile is_space (rev (dropWhile is_space s)))"

definition truthy :: "string \<Rightarrow> bool" where
  "truthy s = (s \<noteq> [])"

section \<open>Strategy A: heuristic scoring (test.py, find_matching_keys)\<close>

text \<open>
  The score of one candidate label that is not an exact match (test.py, lines 129-134).
\<close>

definition candidate_score :: "string \<Rightarrow> string \<Rightarrow> int" where
  "candidate_score csv_col form_label =
     (if sublist (lower csv_col) (lower form_label) then 50 else 0)
   + (if sublist (lower form_label) (lower csv_col) then 40 else 0)
   + max 0 (10 - abs (int (length csv_col) - int (length form_label)))"

text \<open>
  The inner loop over \<open>entry_id_dict.items()\<close> for one column (lines 117-138). The
  pair carried along is \<open>(best_match, best_match_score)\<close>; the \<open>break\<close> on an exact
  match ends the recursion.
\<close>

fun scan_labels ::
  "(string \<times> string) list \<Rightarrow> string set \<Rightarrow> string \<Rightarrow> string option \<times> int \<Rightarrow> string option \<times> int"
where
  "scan_labels [] used csv_col best = best"
| "scan_labels ((form_label, entry_id) # rest) used csv_col (best_match, best_match_score) =
     (if entry_id \<in> used then scan_labels rest used csv_col (best_match, best_match_score)
      else if lower csv_col = lower form_label then (Some entry_id, 100)
      else if candidate_score csv_col form_label > best_match_score
        then scan_labels rest used csv_col (Some entry_id, candidate_score csv_col form_label)
        else scan_labels rest used csv_col (best_match, best_match_score))"

text \<open>
  One turn of the outer loop (lines 116-146): \<open>if best_match:\<close> is false for
  \<open>None\<close> and for the empty string.
\<close>

definition match_column ::
  "(string \<times> string) list \<Rightarrow> (string \<times> string) list \<times> string set \<Rightarrow> string
     \<Rightarrow> (string \<times> string) list \<times> string set"
where
  "match_column entry_id_dict st csv_col =
     (case fst (scan_labels entry_id_dict (snd st) csv_col (None, 0)) of
        None \<Rightarrow> st
      | Some best_match \<Rightarrow>
          if truthy best_match
          then (AList.update csv_col best_match (fst st), insert best_match (snd st))
          else st)"

definition match_columns ::
  "(string \<times> string) list \<Rightarrow> (string \<times> string) list \<times> string set \<Rightarrow> string list
     \<Rightarrow> (string \<times> string) list \<times> string set"
where
  "match_columns entry_id_dict st csv_header = foldl (match_column entry_id_dict) st csv_header"

definition find_matching_keys :: "(string \<times> string) list \<Rightarrow> string list \<Rightarrow> (string \<times> string) list" where
  "find_matching_keys entry_id_dict csv_header = fst (match_columns entry_id_dict ([], {}) csv_header)"



text \<open>
  The bookkeeping both local strategies keep: every identifier in the mapping is in
  \<open>used_entry_ids\<close>, and no identifier and no column occurs twice in the mapping.
\<close>

definition assignment_ok :: "(string \<times> string) list \<times> string set \<Rightarrow> bool" where
  "assignment_ok st =
     (snd ` set (fst st) \<subseteq> snd st \<and> distinct (map snd (fst st)) \<and> distinct (map fst (fst st)))"

section \<open>Python's \<open>re\<close> module, as far as the scripts reach into it\<close>

text \<open>
  bot.py hands every pattern to \<open>re.escape\<close> before \<open>re.search\<close>. The library is
  not part of the repository; the fragment below follows its documented behaviour for
  patterns built from literal characters, escaped characters, \<open>.\<close>, \<open>^\<close>, \<open>$\<close> and
  the postfix operators \<open>*\<close>, \<open>+\<close>, \<open>?\<close>, always with the flag \<open>re.IGNORECASE\<close>.
  A pattern that uses anything else (groups, sets, alternation, counted repetition,
  letter or digit escapes, stacked postfix operators) compiles to \<open>Unmodelled\<close> and a
  search with it answers \<open>Beyond_fragment\<close>: the fragment says nothing about it.
\<close>

definition backslash :: char where
  "backslash = CHR 0x5C"

definition newline :: char where
  "newline = CHR 0x0A"

definition ascii_alnum :: "char \<Rightarrow> bool" where
  "ascii_alnum c =
     (let n = (of_char c :: nat) in (48 \<le> n \<and> n \<le> 57) \<or> (65 \<le> n \<and> n \<le> 90) \<or> (97 \<le> n \<and> n \<le> 122))"

text \<open>
  \<open>re.escape\<close> puts a backslash before each of the characters
  \<open>()[]{}?*+-|^$\.&~#\<close>, the space and the control characters tab, newline, vertical tab,
  form feed and carriage return.
\<close>

definition re_special :: "char \<Rightarrow> bool" where
  "re_special c =
     (c \<in> set ''()[]{}?*+-|^$.&~# '' \<or> c = backslash \<or> (of_char c :: nat) \<in> {9, 10, 11, 12, 13})"

definition re_escape :: "string \<Rightarrow> string" where
  "re_escape s = concat (map (\<lambda>c. if re_special c then [backslash, c] else [c]) s)"

datatype atom = Lit char | AnyChar | Bol | Eol

datatype quant = Once | Opt | Star | Plus

datatype token = TAtom atom | TQuant quant | TBadEscape | TUnmodelled

definition plain :: "char \<Rightarrow> token" where
  "plain c =
     (if c = CHR ''.'' then TAtom AnyChar
      else if c = CHR ''^'' then TAtom Bol
      else if c = CHR ''$'' then TAtom Eol
      else if c = CHR ''*'' then TQuant Star
      else if c = CHR ''+'' then TQuant Plus
      else if c = CHR ''?'' then TQuant Opt
      else if c \<in> set ''()[]{}|'' then TUnmodelled
      else TAtom (Lit c))"

text \<open>
  A backslash before a character that is neither an ASCII letter nor a digit stands for
  that character; a backslash at the end of the pattern is the error
  \<open>bad escape (end of pattern)\<close>.
\<close>

fun tokens :: "string \<Rightarrow> token list" where
  "tokens [] = []"
| "tokens [c] = (if c = backslash then [TBadEscape] else [plain c])"
| "tokens (c # d # cs) =
     (if c = backslash
      then (if ascii_alnum d then TUnmodelled else TAtom (Lit d)) # tokens cs
      else plain c # tokens (d # cs))"

datatype 'a compiled = ReError | Unmodelled | Compiled 'a

definition and_then :: "atom \<times> quant \<Rightarrow> (atom \<times> quant) list compiled \<Rightarrow> (atom \<times> quant) list compiled" where
  "and_then i r = (case r of Compiled its \<Rightarrow> Compiled (i # its) | ReError \<Rightarrow> ReError | Unmodelled \<Rightarrow> Unmodelled)"

definition is_anchor :: "atom \<Rightarrow> bool" where
  "is_anchor a = (a = Bol \<or> a = Eol)"

text \<open>
  A postfix operator with nothing before it, or after \<open>^\<close> or \<open>$\<close>, is the error
  \<open>nothing to repeat\<close>.
\<close>

fun items :: "token list \<Rightarrow> (atom \<times> quant) list compiled" where
  "items [] = Compiled []"
| "items (TAtom a # TQuant q # TQuant q' # ts) = (if is_anchor a then ReError else Unmodelled)"
| "items (TAtom a # TQuant q # ts) = (if is_anchor a then ReError else and_then (a, q) (items ts))"
| "items (TAtom a # ts) = and_then (a, Once) (items ts)"
| "items (TQuant q # ts) = ReError"
| "items (TBadEscape # ts) = ReError"
| "items (TUnmodelled # ts) = Unmodelled"

definition re_compile :: "string \<Rightarrow> (atom \<times> quant) list compiled" where
  "re_compile p = (if TUnmodelled \<in> set (tokens p) then Unmodelled else items (tokens p))"

text \<open>Whether an atom takes the character \<open>c\<close>, ignoring case.\<close>

fun takes :: "atom \<Rightarrow> char \<Rightarrow> bool" where
  "takes (Lit x) c = (lower_char x = lower_char c)"
| "takes AnyChar c = (c \<noteq> newline)"
| "takes Bol c = False"
| "takes Eol c = False"

text \<open>
  Whether the items match at the head of \<open>s\<close>; \<open>at_start\<close> says that \<open>s\<close> is the whole
  subject. Without \<open>re.MULTILINE\<close>, \<open>^\<close> holds at the start of the subject only and
  \<open>$\<close> at its end or before a newline that ends it.
\<close>

fun match_here :: "(atom \<times> quant) list \<Rightarrow> bool \<Rightarrow> string \<Rightarrow> bool" where
  "match_here [] at_start s = True"
| "match_here ((Bol, q) # r) at_start s = (at_start \<and> match_here r at_start s)"
| "match_here ((Eol, q) # r) at_start s = ((s = [] \<or> s = [newline]) \<and> match_here r at_start s)"
| "match_here ((a, Once) # r) at_start [] = False"
| "match_here ((a, Once) # r) at_start (c # cs) = (takes a c \<and> match_here r False cs)"
| "match_here ((a, Opt) # r) at_start [] = match_here r at_start []"
| "match_here ((a, Opt) # r) at_start (c # cs) =
     (match_here r at_start (c # cs) \<or> (takes a c \<and> match_here r False cs))"
| "match_here ((a, Star) # r) at_start [] = match_here r at_start []"
| "match_here ((a, Star) # r) at_start (c # cs) =
     (match_here r at_start (c # cs) \<or> (takes a c \<and> match_here ((a, Star) # r) False cs))"
| "match_here ((a, Plus) # r) at_start [] = False"
| "match_here ((a, Plus) # r) at_start (c # cs) = (takes a c \<and> match_here ((a, Star) # r) False cs)"

fun search_from :: "(atom \<times> quant) list \<Rightarrow> bool \<Rightarrow> string \<Rightarrow> bool" where
  "search_from its at_start [] = match_here its at_start []"
| "search_from its at_start (c # cs) = (match_here its at_start (c # cs) \<or> search_from its False cs)"

text \<open>\<open>re.search(pattern, s, re.IGNORECASE)\<close>: \<open>Found b\<close> when it returns, \<open>b\<close> telling
  whether it returned a match object.\<close>

datatype search_result = Raises_re_error | Beyond_fragment | Found bool

definition re_search :: "string \<Rightarrow> string \<Rightarrow> search_result" where
  "re_search p s =
     (case re_compile p of
        ReError \<Rightarrow> Raises_re_error
      | Unmodelled \<Rightarrow> Beyond_fragment
      | Compiled its \<Rightarrow> Found (search_from its True s))"

section \<open>Strategy B: configured rules (bot.py, find_matching_keys_with_regex)\<close>

definition sanitize_for_regex :: "string \<Rightarrow> string" where
  "sanitize_for_regex text = re_escape text"

text \<open>
  One entry of the rule file: \<open>pattern_data['pattern']\<close>, \<open>pattern_data['score']\<close> and
  \<open>pattern_data.get('match_type', 'contains')\<close>, the last \<open>None\<close> when the key is absent.
  Rule files follow the documented schema: the pattern is a string and the score an
  integer.
\<close>

record pattern_data =
  pattern :: string
  score :: int
  match_type :: "string option"

datatype 'a json_file = File_not_found | Invalid_json | Loaded 'a

datatype message =
    Patterns_file_not_found
  | Patterns_file_invalid_json
  | Invalid_regex_pattern string string

datatype abort = Outside_re_fragment

text \<open>The body of the \<open>try\<close> (lines 147-161), up to the decision whether the label matched.\<close>

definition try_rule :: "pattern_data \<Rightarrow> string \<Rightarrow> search_result" where
  "try_rule pd form_label =
     (let mt = (case match_type pd of None \<Rightarrow> ''contains'' | Some t \<Rightarrow> t) in
      if mt = ''exact'' then re_search (''^'' @ sanitize_for_regex (pattern pd) @ ''$'') form_label
      else if mt = ''contains'' then re_search (sanitize_for_regex (pattern pd)) form_label
      else if mt = ''reverse_contains'' then re_search (sanitize_for_regex form_label) (pattern pd)
      else Found False)"

text \<open>
  The loop over \<open>regex_patterns.get(csv_col, [])\<close> for one label (lines 141-165). The
  state is \<open>(best_match, best_score)\<close> and the warnings printed so far.
\<close>

fun apply_rules ::
  "pattern_data list \<Rightarrow> string \<Rightarrow> string \<Rightarrow> string \<Rightarrow> (string option \<times> int) \<times> message list
     \<Rightarrow> abort + ((string option \<times> int) \<times> message list)"
where
  "apply_rules [] csv_col form_label entry_id st = Inr st"
| "apply_rules (pd # pds) csv_col form_label entry_id ((best_match, best_score), out) =
     (case try_rule pd form_label of
        Found True \<Rightarrow>
          if score pd > best_score
          then apply_rules pds csv_col form_label entry_id ((Some entry_id, score pd), out)
          else apply_rules pds csv_col form_label entry_id ((best_match, best_score), out)
      | Found False \<Rightarrow> apply_rules pds csv_col form_label entry_id ((best_match, best_score), out)
      | Raises_re_error \<Rightarrow>
          apply_rules pds csv_col form_label entry_id
            ((best_match, best_score), out @ [Invalid_regex_pattern (pattern pd) csv_col])
      | Beyond_fragment \<Rightarrow> Inl Outside_re_fragment)"

definition rules_for :: "(string \<times> pattern_data list) list \<Rightarrow> string \<Rightarrow> pattern_data list" where
  "rules_for regex_patterns csv_col = (case map_of regex_patterns csv_col of None \<Rightarrow> [] | Some pds \<Rightarrow> pds)"

text \<open>The loop over \<open>entry_id_dict.items()\<close> for one column (lines 137-165).\<close>

fun scan_labels_regex ::
  "(string \<times> pattern_data list) list \<Rightarrow> (string \<times> string) list \<Rightarrow> string set \<Rightarrow> string
     \<Rightarrow> (string option \<times> int) \<times> message list \<Rightarrow> abort + ((string option \<times> int) \<times> message list)"
where
  "scan_labels_regex regex_patterns [] used csv_col st = Inr st"
| "scan_labels_regex regex_patterns ((form_label, entry_id) # rest) used csv_col st =
     (if entry_id \<in> used then scan_labels_regex regex_patterns rest used csv_col st
      else case apply_rules (rules_for regex_patterns csv_col) csv_col form_label entry_id st of
             Inl a \<Rightarrow> Inl a
           | Inr st' \<Rightarrow> scan_labels_regex regex_patterns rest used csv_col st')"

text \<open>The loop over \<open>csv_header\<close> (lines 133-169).\<close>

fun match_columns_regex ::
  "(string \<times> pattern_data list) list \<Rightarrow> (string \<times> string) list \<Rightarrow> string list
     \<Rightarrow> ((string \<times> string) list \<times> string set) \<times> message list
     \<Rightarrow> abort + (((string \<times> string) list \<times> string set) \<times> message list)"
where
  "match_columns_regex regex_patterns entry_id_dict [] st = Inr st"
| "match_columns_regex regex_patterns entry_id_dict (csv_col # cols) ((mappings, used), out) =
     (case scan_labels_regex regex_patterns entry_id_dict used csv_col ((None, 0), out) of
        Inl a \<Rightarrow> Inl a
      | Inr ((best_match, best_score), out') \<Rightarrow>
          (case best_match of
             None \<Rightarrow> match_columns_regex regex_patterns entry_id_dict cols ((mappings, used), out')
           | Some bm \<Rightarrow>
               if truthy bm
               then match_columns_regex regex_patterns entry_id_dict cols
                      ((AList.update csv_col bm mappings, insert bm used), out')
               else match_columns_regex regex_patterns entry_id_dict cols ((mappings, used), out')))"

text \<open>
  The result is the messages printed and the mapping returned; \<open>Inl\<close> is never a
  behaviour of the script, it marks a run the \<open>re\<close> fragment cannot follow.
\<close>

definition find_matching_keys_with_regex ::
  "(string \<times> string) list \<Rightarrow> string list \<Rightarrow> (string \<times> pattern_data list) list json_file
     \<Rightarrow> abort + (message list \<times> (string \<times> string) list)"
where
  "find_matching_keys_with_regex entry_id_dict csv_header regex_patterns_file =
     (case regex_patterns_file of
        File_not_found \<Rightarrow> Inr ([Patterns_file_not_found], [])
      | Invalid_json \<Rightarrow> Inr ([Patterns_file_invalid_json], [])
      | Loaded regex_patterns \<Rightarrow>
          (case match_columns_regex regex_patterns entry_id_dict csv_header (([], {}), []) of
             Inl a \<Rightarrow> Inl a
           | Inr ((mappings, used), out) \<Rightarrow> Inr (out, mappings)))"

text \<open>
  What the three match types come to once the pattern is escaped: plain text
  comparisons that ignore case.
\<close>

definition literal_match :: "pattern_data \<Rightarrow> string \<Rightarrow> bool" where
  "literal_match pd form_label =
     (let mt = (case match_type pd of None \<Rightarrow> ''contains'' | Some t \<Rightarrow> t) in
      if mt = ''exact''
        then lower form_label = lower (pattern pd) \<or> lower form_label = lower (pattern pd) @ [newline]
      else if mt = ''contains'' then sublist (lower (pattern pd)) (lower form_label)
      else if mt = ''reverse_contains'' then sublist (lower form_label) (lower (pattern pd))
      else False)"

text \<open>A column none of whose rules matches any label of the field map.\<close>

definition unmatched :: "(string \<times> pattern_data list) list \<Rightarrow> (string \<times> string) list \<Rightarrow> string \<Rightarrow> bool" where
  "unmatched regex_patterns entry_id_dict csv_col =
     (\<forall>(l, e)\<in>set entry_id_dict. \<forall>pd\<in>set (rules_for regex_patterns csv_col). try_rule pd l \<noteq> Found True)"

text \<open>The compiled form of a pattern that is plain text.\<close>

definition literally :: "string \<Rightarrow> (atom \<times> quant) list" where
  "literally p = map (\<lambda>c. (Lit c, Once)) p"


section \<open>Strategy C: delegated matching (test2.py, find_matching_keys_with_gemini)\<close>

text \<open>
  A value of the field map in test2.py is a plain string (a visible field's identifier)
  or the tuple \<open>(name, value)\<close> of a hidden input.
\<close>

datatype ident = Visible string | Hidden string string

text \<open>What \<open>json.loads\<close> can return.\<close>

datatype json_value =
    JNull
  | JBool bool
  | JNumber int
  | JString string
  | JArray "json_value list"
  | JObject "(string \<times> json_value) list"

text \<open>
  A value of the returned dictionary: whatever the model's JSON object held under a
  key, or a hidden field's tuple.
\<close>

datatype mapped = From_model json_value | Hidden_field string string

text \<open>
  The external model is a function of the prompt. Its answer is classified by what the
  script does with it: \<open>generate_content\<close> or reading the response raises; the text has
  no block that the regular expression of line 237 finds; the block does not parse;
  or the block parses, to a JSON object (the expression only finds text in braces).
\<close>

datatype reply = Api_error | No_json_block | Json_decode_error | Json_object "(string \<times> json_value) list"

datatype notice =
    Invalid_entry_id json_value string
  | Entry_id_already_used string
  | No_json_block_found
  | Json_decode_failed
  | Gemini_call_failed

definition tab :: char where
  "tab = CHR 0x09"

definition double_quote :: char where
  "double_quote = CHR 0x22"

text \<open>
  \<open>sanitize_for_prompt\<close> (lines 54-58): newlines and tabs become spaces, then every
  character outside \<open>[\w\s.,;:\-!?"]\<close> is dropped.
\<close>

definition kept_in_prompt :: "char \<Rightarrow> bool" where
  "kept_in_prompt c =
     (ascii_alnum c \<or> c = CHR ''_'' \<or> is_space c \<or> c \<in> set ''.,;:-!?'' \<or> c = double_quote)"

definition sanitize_for_prompt :: "string \<Rightarrow> string" where
  "sanitize_for_prompt text =
     filter kept_in_prompt (map (\<lambda>c. if c = newline \<or> c = tab then CHR '' '' else c) text)"

text \<open>Lines 215-219: only string identifiers that start with \<open>entry.\<close> are kept.\<close>

fun filtered_entry_ids :: "(string \<times> ident) list \<Rightarrow> (string \<times> string) list" where
  "filtered_entry_ids [] = []"
| "filtered_entry_ids ((label, Visible entry_id) # rest) =
     (if prefix ''entry.'' entry_id then (label, entry_id) # filtered_entry_ids rest
      else filtered_entry_ids rest)"
| "filtered_entry_ids ((label, Hidden n v) # rest) = filtered_entry_ids rest"

text \<open>Line 223: a dictionary comprehension, so a later label that sanitises to the same
  text replaces the earlier identifier.\<close>

definition sanitized_form_fields :: "(string \<times> string) list \<Rightarrow> (string \<times> string) list" where
  "sanitized_form_fields filtered =
     foldl (\<lambda>d (label, entry_id). AList.update (sanitize_for_prompt label) entry_id d) [] filtered"

fun join :: "string \<Rightarrow> string list \<Rightarrow> string" where
  "join sep [] = []"
| "join sep [x] = x"
| "join sep (x # y # ys) = x @ sep @ join sep (y # ys)"

definition prompt_head :: string where
  "prompt_head =
     ''You are a helpful assistant that maps CSV column names to Google Form entry IDs.'' @ [newline] @
     ''I will give you a list of CSV column names and a list of Google Form field labels with their corresponding entry IDs.'' @ [newline] @
     ''Your task is to determine the best mapping between the CSV columns and the *visible* form fields.'' @ [newline] @
     ''Return the mappings in a JSON format, where the keys are the CSV column names and the values are the corresponding entry IDs.'' @ [newline] @
     ''If no suitable mapping can be found for a CSV column, do NOT include it in the JSON output. Do not make up an entry ID.  Do *NOT* map any hidden fields.'' @ [newline] @
     [newline] @ ''CSV Columns:'' @ [newline]"

definition build_prompt :: "(string \<times> ident) list \<Rightarrow> string list \<Rightarrow> string" where
  "build_prompt entry_id_dict csv_header =
     (let sanitized_csv_columns = map sanitize_for_prompt csv_header;
          fields = sanitized_form_fields (filtered_entry_ids entry_id_dict);
          csv_columns_str = join [newline] (map (\<lambda>col. ''- '' @ col) sanitized_csv_columns);
          form_fields_str = join [newline] (map (\<lambda>(label, entry_id). ''- '' @ label @ '': '' @ entry_id) fields)
      in prompt_head @ csv_columns_str @ [newline, newline] @ ''Form Fields:'' @ [newline]
           @ form_fields_str @ [newline, newline] @ ''JSON Mapping:'' @ [newline])"

text \<open>
  The loop of lines 250-257. It prints and fills \<open>used_entry_ids\<close>; \<open>mappings\<close> is not
  touched in it.
\<close>

fun check_entries ::
  "(string \<times> json_value) list \<Rightarrow> string set \<times> notice list \<Rightarrow> string set \<times> notice list"
where
  "check_entries [] st = st"
| "check_entries ((csv_col, JString entry_id) # rest) (used, out) =
     (if \<not> prefix ''entry.'' entry_id
        then check_entries rest (used, out @ [Invalid_entry_id (JString entry_id) csv_col])
      else if entry_id \<in> used
        then check_entries rest (used, out @ [Entry_id_already_used entry_id])
      else check_entries rest (insert entry_id used, out))"
| "check_entries ((csv_col, v) # rest) (used, out) =
     check_entries rest (used, out @ [Invalid_entry_id v csv_col])"

text \<open>Lines 264-266: every hidden field goes into the mapping under its own name.\<close>

fun add_hidden :: "(string \<times> ident) list \<Rightarrow> (string \<times> mapped) list \<Rightarrow> (string \<times> mapped) list" where
  "add_hidden [] mappings = mappings"
| "add_hidden ((label, Hidden n v) # rest) mappings =
     add_hidden rest (AList.update n (Hidden_field n v) mappings)"
| "add_hidden ((label, Visible entry_id) # rest) mappings = add_hidden rest mappings"

definition find_matching_keys_with_gemini ::
  "(string \<times> ident) list \<Rightarrow> string list \<Rightarrow> (string \<Rightarrow> reply) \<Rightarrow> notice list \<times> (string \<times> mapped) list"
where
  "find_matching_keys_with_gemini entry_id_dict csv_header gemini =
     (case gemini (build_prompt entry_id_dict csv_header) of
        Api_error \<Rightarrow> ([Gemini_call_failed], [])
      | No_json_block \<Rightarrow> ([No_json_block_found], [])
      | Json_decode_error \<Rightarrow> ([Json_decode_failed], [])
      | Json_object obj \<Rightarrow>
          (let mappings = map (\<lambda>(csv_col, v). (csv_col, From_model v)) obj;
               out = snd (check_entries obj ({}, []))
           in (out, add_hidden entry_id_dict mappings)))"

definition is_hidden :: "ident \<Rightarrow> bool" where
  "is_hidden i = (case i of Hidden n v \<Rightarrow> True | Visible e \<Rightarrow> False)"

section \<open>The row submitters (csv_to_google_form)\<close>

text \<open>
  A row of \<open>csv.DictReader\<close> is a dictionary from column names to values;
  \<open>row.get(k, d)\<close> is \<open>row_get row k d\<close>.

  \<open>requests.post\<close> followed by \<open>raise_for_status\<close> has three outcomes: a response that
  passes the status check, a response for which \<open>raise_for_status\<close> raises, and a
  transport error raised by \<open>post\<close> itself, with no response. The first two carry the
  status code. The network is a function of the row's position in the file and of what
  is sent.
\<close>

type_synonym row = "(string \<times> string) list"

definition row_get :: "row \<Rightarrow> string \<Rightarrow> string \<Rightarrow> string" where
  "row_get row k d = (case map_of row k of None \<Rightarrow> d | Some v \<Rightarrow> v)"

datatype post_outcome = Accepted nat | Http_error nat | Transport_error

datatype event =
    Submitted nat row
  | Submit_failed nat row
  | Sign_in_issue
  | User_not_found string
  | No_cookies string
  | Csv_not_found
  | Credentials_unreadable
  | Unexpected_error

text \<open>Whether the submission of a row counted as successful.\<close>

definition accepted :: "post_outcome \<Rightarrow> bool" where
  "accepted r = (case r of Accepted s \<Rightarrow> True | _ \<Rightarrow> False)"

subsection \<open>test.py\<close>

text \<open>Lines 28-30.\<close>

definition form_data_test :: "(string \<times> string) list \<Rightarrow> row \<Rightarrow> (string \<times> string) list" where
  "form_data_test field_mappings row =
     foldl (\<lambda>form_data (csv_column, form_entry_id).
              AList.update form_entry_id (row_get row csv_column []) form_data)
       [] field_mappings"

text \<open>The loop over the rows (lines 27-43); the state is \<open>all_submissions_successful\<close> and
  what was printed.\<close>

fun submit_rows_test ::
  "(nat \<Rightarrow> (string \<times> string) list \<Rightarrow> post_outcome) \<Rightarrow> (string \<times> string) list \<Rightarrow> nat \<Rightarrow> row list
     \<Rightarrow> bool \<times> event list \<Rightarrow> bool \<times> event list"
where
  "submit_rows_test post field_mappings i [] st = st"
| "submit_rows_test post field_mappings i (row # rows) (all_ok, out) =
     (case post i (form_data_test field_mappings row) of
        Accepted status \<Rightarrow>
          submit_rows_test post field_mappings (i + 1) rows (all_ok, out @ [Submitted i row])
      | Http_error status \<Rightarrow>
          submit_rows_test post field_mappings (i + 1) rows (False, out @ [Submit_failed i row])
      | Transport_error \<Rightarrow>
          submit_rows_test post field_mappings (i + 1) rows (False, out @ [Submit_failed i row]))"

definition csv_to_google_form_test ::
  "(nat \<Rightarrow> (string \<times> string) list \<Rightarrow> post_outcome) \<Rightarrow> row list option \<Rightarrow> (string \<times> string) list
     \<Rightarrow> bool \<times> event list"
where
  "csv_to_google_form_test post csv_file field_mappings =
     (case csv_file of
        None \<Rightarrow> (False, [Csv_not_found])
      | Some rows \<Rightarrow> submit_rows_test post field_mappings 0 rows (True, []))"

subsection \<open>bot.py\<close>



subsection \<open>test2.py\<close>

text \<open>Lines 90-96.\<close>

definition form_data_test2 :: "(string \<times> ident) list \<Rightarrow> row \<Rightarrow> (string \<times> string) list" where
  "form_data_test2 field_mappings row =
     foldl (\<lambda>form_data (csv_column, form_entry_id).
              if csv_column \<noteq> ''User''
              then (case form_entry_id of
                      Hidden n v \<Rightarrow> AList.update n v form_data
                    | Visible e \<Rightarrow> AList.update e (row_get row csv_column []) form_data)
              else form_data)
       [] field_mappings"

text \<open>
  The loop over the rows (lines 72-110). The state is \<open>all_submissions_successful\<close>, the
  local variable \<open>response\<close> (\<open>None\<close> while it is unbound, else the status code of the
  last response received) and what was printed. The \<open>except\<close> clause reads
  \<open>response.status_code\<close>: when \<open>response\<close> is still unbound that raises
  \<open>UnboundLocalError\<close>, which leaves the loop for the outer handler of line 117 and the
  function returns \<open>False\<close>.
\<close>

fun submit_rows_test2 ::
  "('u \<Rightarrow> 'j option) \<Rightarrow> (nat \<Rightarrow> 'j \<Rightarrow> (string \<times> string) list \<Rightarrow> post_outcome) \<Rightarrow> (string \<times> 'u) list
     \<Rightarrow> (string \<times> ident) list \<Rightarrow> nat \<Rightarrow> row list \<Rightarrow> bool \<times> nat option \<times> event list \<Rightarrow> bool \<times> event list"
where
  "submit_rows_test2 get_google_cookies post user_credentials field_mappings i [] (all_ok, response, out) =
     (all_ok, out)"
| "submit_rows_test2 get_google_cookies post user_credentials field_mappings i (row # rows) (all_ok, response, out) =
     (let user_id = row_get row ''User'' ''default'' in
      case map_of user_credentials user_id of
        None \<Rightarrow>
          submit_rows_test2 get_google_cookies post user_credentials field_mappings (i + 1) rows
            (False, response, out @ [User_not_found user_id])
      | Some user_info \<Rightarrow>
          (case get_google_cookies user_info of
             None \<Rightarrow>
               submit_rows_test2 get_google_cookies post user_credentials field_mappings (i + 1) rows
                 (False, response, out @ [No_cookies user_id])
           | Some cj \<Rightarrow>
               (case post i cj (form_data_test2 field_mappings row) of
                  Accepted status \<Rightarrow>
                    submit_rows_test2 get_google_cookies post user_credentials field_mappings (i + 1) rows
                      (all_ok, Some status, out @ [Submitted i row])
                | Http_error status \<Rightarrow>
                    submit_rows_test2 get_google_cookies post user_credentials field_mappings (i + 1) rows
                      (False, Some status,
                       out @ [Submit_failed i row] @ (if status = 302 then [Sign_in_issue] else []))
                | Transport_error \<Rightarrow>
                    (case response of
                       None \<Rightarrow> (False, out @ [Submit_failed i row, Unexpected_error])
                     | Some status \<Rightarrow>
                         submit_rows_test2 get_google_cookies post user_credentials field_mappings (i + 1) rows
                           (False, response,
                            out @ [Submit_failed i row] @ (if status = 302 then [Sign_in_issue] else []))))))"

definition csv_to_google_form_test2 ::
  "('u \<Rightarrow> 'j option) \<Rightarrow> (nat \<Rightarrow> 'j \<Rightarrow> (string \<times> string) list \<Rightarrow> post_outcome) \<Rightarrow> row list option
     \<Rightarrow> (string \<times> ident) list \<Rightarrow> (string \<times> 'u) list option \<Rightarrow> bool \<times> event list"
where
  "csv_to_google_form_test2 get_google_cookies post csv_file field_mappings user_credentials_file =
     (case user_credentials_file of
        None \<Rightarrow> (False, [Credentials_unreadable])
      | Some user_credentials \<Rightarrow>
          (case csv_file of
             None \<Rightarrow> (False, [Csv_not_found])
           | Some rows \<Rightarrow>
               submit_rows_test2 get_google_cookies post user_credentials field_mappings 0 rows
                 (True, None, [])))"



section \<open>The form introspectors (get_form_entry_ids)\<close>

text \<open>
  Fetching the page either fails (\<open>requests.get\<close> or \<open>raise_for_status\<close> raises) or
  gives a document. Of the parsed document the model keeps what the scripts read.
\<close>

datatype 'a fetched = Fetch_failed | Page 'a

subsection \<open>test.py and bot.py\<close>

text \<open>
  A \<open>div\<close> with \<open>role='listitem'\<close>: the text of its first \<open>span\<close> if there is one, and
  the \<open>data-params\<close> attribute of its first \<open>div\<close> that has one.
\<close>

record listitem =
  question_span :: "string option"
  data_params :: "string option"

definition is_digit :: "char \<Rightarrow> bool" where
  "is_digit c = (let n = (of_char c :: nat) in 48 \<le> n \<and> n \<le> 57)"

text \<open>\<open>re.search(r'\[\[(\d+)', data_params)\<close>: the digits after the first \<open>[[\<close> that is
  followed by a digit.\<close>

fun field_index :: "string \<Rightarrow> string option" where
  "field_index [] = None"
| "field_index (c # cs) =
     (if prefix ''[['' (c # cs) \<and> takeWhile is_digit (drop 2 (c # cs)) \<noteq> []
      then Some (takeWhile is_digit (drop 2 (c # cs)))
      else field_index cs)"

fun scan_listitems :: "listitem list \<Rightarrow> (string \<times> string) list \<Rightarrow> (string \<times> string) list" where
  "scan_listitems [] entry_ids = entry_ids"
| "scan_listitems (item # rest) entry_ids =
     (case question_span item of
        None \<Rightarrow> scan_listitems rest entry_ids
      | Some span_text \<Rightarrow>
          (case data_params item of
             None \<Rightarrow> scan_listitems rest entry_ids
           | Some params \<Rightarrow>
               if \<not> truthy params then scan_listitems rest entry_ids
               else (case field_index params of
                       None \<Rightarrow> scan_listitems rest entry_ids
                     | Some digits \<Rightarrow>
                         scan_listitems rest (AList.update (strip span_text) (''entry.'' @ digits) entry_ids))))"

text \<open>\<open>return entry_ids if entry_ids else None\<close>, and \<open>None\<close> again from the handlers.\<close>

definition get_form_entry_ids :: "listitem list fetched \<Rightarrow> (string \<times> string) list option" where
  "get_form_entry_ids page =
     (case page of
        Fetch_failed \<Rightarrow> None
      | Page list_items \<Rightarrow>
          (let entry_ids = scan_listitems list_items [] in
           if entry_ids = [] then None else Some entry_ids))"

subsection \<open>test2.py\<close>

text \<open>
  A \<open>div\<close> with a \<open>data-params\<close> attribute: its first \<open>input\<close> (the attributes \<open>name\<close>
  and \<open>aria-labelledby\<close>), the \<open>name\<close> of its first \<open>textarea\<close>, the text of the element
  with a given \<open>id\<close>, of its first \<open>span\<close> and of its first \<open>div\<close> with \<open>role='heading'\<close>.
\<close>

record container =
  input_field :: "(string option \<times> string option) option"
  textarea_field :: "string option option"
  text_by_id :: "string \<Rightarrow> string option"
  first_span :: "string option"
  heading_div :: "string option"

text \<open>\<open>_extract_label\<close> (lines 168-190).\<close>

definition extract_label :: "container \<Rightarrow> string option" where
  "extract_label c =
     (case (case input_field c of
              Some (field_name, Some aria_labelledby) \<Rightarrow>
                if truthy aria_labelledby then map_option strip (text_by_id c aria_labelledby) else None
            | _ \<Rightarrow> None) of
        Some label \<Rightarrow> Some label
      | None \<Rightarrow>
          (case first_span c of
             Some t \<Rightarrow> Some (strip t)
           | None \<Rightarrow> map_option strip (heading_div c)))"

text \<open>Lines 136-140 and 143-146, the same for the input and for the textarea.\<close>

definition record_field :: "container \<Rightarrow> string option \<Rightarrow> (string \<times> ident) list \<Rightarrow> (string \<times> ident) list" where
  "record_field c field_name entry_ids =
     (case field_name of
        None \<Rightarrow> entry_ids
      | Some n \<Rightarrow>
          if truthy n \<and> prefix ''entry.'' n
          then (let label = (case extract_label c of
                               None \<Rightarrow> n
                             | Some t \<Rightarrow> if truthy t then t else n)
                in AList.update label (Visible n) entry_ids)
          else entry_ids)"

fun scan_containers :: "container list \<Rightarrow> (string \<times> ident) list \<Rightarrow> (string \<times> ident) list" where
  "scan_containers [] entry_ids = entry_ids"
| "scan_containers (c # rest) entry_ids =
     (let after_input = (case input_field c of
                           None \<Rightarrow> entry_ids
                         | Some (field_name, aria) \<Rightarrow> record_field c field_name entry_ids);
          after_textarea = (case textarea_field c of
                              None \<Rightarrow> after_input
                            | Some field_name \<Rightarrow> record_field c field_name after_input)
      in scan_containers rest after_textarea)"

text \<open>Lines 150-156: the hidden inputs, each with its attributes \<open>name\<close> and \<open>value\<close>.\<close>

fun scan_hidden :: "(string option \<times> string option) list \<Rightarrow> (string \<times> ident) list \<Rightarrow> (string \<times> ident) list" where
  "scan_hidden [] entry_ids = entry_ids"
| "scan_hidden ((name, val) # rest) entry_ids =
     (case name of
        None \<Rightarrow> scan_hidden rest entry_ids
      | Some n \<Rightarrow>
          if truthy n
          then scan_hidden rest
                 (AList.update n (Hidden n (case val of None \<Rightarrow> [] | Some v \<Rightarrow> v)) entry_ids)
          else scan_hidden rest entry_ids)"

definition get_form_entry_ids_test2 ::
  "(container list \<times> (string option \<times> string option) list) fetched \<Rightarrow> (string \<times> ident) list option"
where
  "get_form_entry_ids_test2 page =
     (case page of
        Fetch_failed \<Rightarrow> None
      | Page (containers, hidden_inputs) \<Rightarrow>
          Some (scan_hidden hidden_inputs (scan_containers containers [])))"

section \<open>Properties of Strategy A\<close>


lemma scan_labels_source:
  "scan_labels fm used c (b, s) = (Some e, s')
     \<Longrightarrow> b = Some e \<or>
         (e \<notin> used \<and> (\<exists>l. (l, e) \<in> set fm \<and> (lower c = lower l \<or> s < candidate_score c l)))"
proof (induction fm arbitrary: b s)
  case Nil
  then show ?case by simp
next
  case (Cons p fm)
  obtain l' e' where p: "p = (l', e')" by (cases p)
  show ?case
  proof (cases "e' \<in> used")
    case True
    with Cons.prems p have "scan_labels fm used c (b, s) = (Some e, s')" by simp
    from Cons.IH[OF this] show ?thesis by auto
  next
    case unused: False
    show ?thesis
    proof (cases "lower c = lower l'")
      case True
      with Cons.prems p unused have "e = e'" by simp
      with p unused True have "e \<notin> used" "(l', e) \<in> set (p # fm)" "lower c = lower l'" by simp_all
      then show ?thesis by blast
    next
      case False
      show ?thesis
      proof (cases "candidate_score c l' > s")
        case True
        with Cons.prems p unused False
        have "scan_labels fm used c (Some e', candidate_score c l') = (Some e, s')" by simp
        from Cons.IH[OF this] have "Some e' = Some e \<or> (e \<notin> used \<and> (\<exists>l. (l, e) \<in> set fm \<and> (lower c = lower l \<or> candidate_score c l' < candidate_score c l)))" .
        then show ?thesis
        proof
          assume "Some e' = Some e"
          then have "(l', e) \<in> set (p # fm)" "s < candidate_score c l'" "e \<notin> used"
            using p True unused by simp_all
          then show ?thesis by blast
        next
          assume "e \<notin> used \<and> (\<exists>l. (l, e) \<in> set fm \<and> (lower c = lower l \<or> candidate_score c l' < candidate_score c l))"
          then obtain l where "e \<notin> used" "(l, e) \<in> set fm" "lower c = lower l \<or> candidate_score c l' < candidate_score c l" by blast
          with True have "(l, e) \<in> set (p # fm)" "lower c = lower l \<or> s < candidate_score c l" by auto
          with \<open>e \<notin> used\<close> show ?thesis by blast
        qed
      next
        case F2: False
        with Cons.prems p unused False
        have "scan_labels fm used c (b, s) = (Some e, s')" by simp
        from Cons.IH[OF this] show ?thesis by auto
      qed
    qed
  qed
qed

lemma update_values_subset: "snd ` set (AList.update k v al) \<subseteq> insert v (snd ` set al)"
  by (induction al) auto

lemma update_values_distinct:
  "v \<notin> snd ` set al \<Longrightarrow> distinct (map snd al) \<Longrightarrow> distinct (map snd (AList.update k v al))"
proof (induction al)
  case Nil
  then show ?case by simp
next
  case (Cons p al)
  show ?case
  proof (cases "fst p = k")
    case True
    with Cons.prems show ?thesis by simp
  next
    case False
    from Cons.prems have "snd p \<notin> insert v (snd ` set al)" by auto
    with update_values_subset[of k v al] have "snd p \<notin> snd ` set (AList.update k v al)" by blast
    with False Cons show ?thesis by simp
  qed
qed

lemma assignment_ok_update:
  assumes "assignment_ok (m, used)" "v \<notin> used"
  shows "assignment_ok (AList.update k v m, insert v used)"
proof -
  from assms have "v \<notin> snd ` set m" by (auto simp: assignment_ok_def)
  with assms update_values_subset[of k v m] show ?thesis
    by (auto simp: assignment_ok_def update_values_distinct distinct_update)
qed

lemma match_column_ok: "assignment_ok st \<Longrightarrow> assignment_ok (match_column fm st c)"
proof -
  assume ok: "assignment_ok st"
  obtain m used where st: "st = (m, used)" by (cases st)
  obtain b s where r: "scan_labels fm used c (None, 0) = (b, s)" by (cases "scan_labels fm used c (None, 0)")
  show ?thesis
  proof (cases b)
    case None
    with ok st r show ?thesis by (simp add: match_column_def)
  next
    case (Some e)
    with r scan_labels_source[of fm used c None 0 e s] have "e \<notin> used" by simp
    with ok st have "assignment_ok (AList.update c e m, insert e used)" by (simp add: assignment_ok_update)
    with ok st r Some show ?thesis by (simp add: match_column_def)
  qed
qed

lemma match_columns_ok: "assignment_ok st \<Longrightarrow> assignment_ok (match_columns fm st cs)"
  unfolding match_columns_def
  by (induction cs arbitrary: st) (simp_all add: match_column_ok)

lemma assignment_ok_inj:
  assumes "assignment_ok st" "map_of (fst st) c1 = Some e" "map_of (fst st) c2 = Some e"
  shows "c1 = c2"
proof -
  from assms have "(c1, e) \<in> set (fst st)" "(c2, e) \<in> set (fst st)" by (auto dest: map_of_SomeD)
  moreover from assms have "distinct (map snd (fst st))" by (simp add: assignment_ok_def)
  ultimately have "(c1, e) = (c2, e)"
    by (auto simp: distinct_map dest!: inj_onD[where x = "(c1, e)" and y = "(c2, e)"])
  then show ?thesis by simp
qed

lemma match_column_other:
  "c \<noteq> c' \<Longrightarrow> map_of (fst (match_column fm st c')) c = map_of (fst st) c"
  by (simp add: match_column_def update_conv' split: option.splits)

lemma match_columns_other:
  "c \<notin> set cs \<Longrightarrow> map_of (fst (match_columns fm st cs)) c = map_of (fst st) c"
  unfolding match_columns_def
  by (induction cs arbitrary: st) (simp_all add: match_column_other)





subsection \<open>An exact match wins\<close>




section \<open>Escaped patterns are plain text\<close>

lemma special_not_alnum: "re_special c \<Longrightarrow> \<not> ascii_alnum c"
  by (auto simp: re_special_def ascii_alnum_def backslash_def Let_def)

lemma plain_literal: "\<not> re_special c \<Longrightarrow> plain c = TAtom (Lit c)"
  by (simp add: re_special_def plain_def)

lemma not_special_not_backslash: "\<not> re_special c \<Longrightarrow> c \<noteq> backslash"
  by (auto simp: re_special_def)

lemma tokens_plain: "c \<noteq> backslash \<Longrightarrow> tokens (c # rest) = plain c # tokens rest"
  by (cases rest) simp_all

lemma tokens_re_escape: "tokens (re_escape p @ rest) = map (\<lambda>c. TAtom (Lit c)) p @ tokens rest"
proof (induction p)
  case Nil
  then show ?case by (simp add: re_escape_def)
next
  case (Cons c p)
  have step: "re_escape (c # p) = (if re_special c then [backslash, c] else [c]) @ re_escape p"
    by (simp add: re_escape_def)
  show ?case
  proof (cases "re_special c")
    case True
    then have "tokens (re_escape (c # p) @ rest) = TAtom (Lit c) # tokens (re_escape p @ rest)"
      using special_not_alnum[OF True] by (simp add: step)
    with Cons show ?thesis by simp
  next
    case False
    then have "tokens (re_escape (c # p) @ rest) = TAtom (Lit c) # tokens (re_escape p @ rest)"
      using tokens_plain[OF not_special_not_backslash[OF False]] plain_literal[OF False]
      by (simp add: step)
    with Cons show ?thesis by simp
  qed
qed

lemma items_atom_once:
  "(\<forall>q ts'. ts \<noteq> TQuant q # ts') \<Longrightarrow> items (TAtom a # ts) = and_then (a, Once) (items ts)"
proof (cases ts)
  case Nil
  then show ?thesis by simp
next
  case (Cons t ts')
  assume "\<forall>q ts'. ts \<noteq> TQuant q # ts'"
  with Cons show ?thesis by (cases t) simp_all
qed

lemma items_literals:
  assumes "\<forall>q ts'. rest \<noteq> TQuant q # ts'" and "items rest = Compiled r"
  shows "items (map (\<lambda>c. TAtom (Lit c)) p @ rest) = Compiled (literally p @ r)"
proof (induction p)
  case Nil
  from assms(2) show ?case by (simp add: literally_def)
next
  case (Cons c p)
  have "\<forall>q ts'. map (\<lambda>c. TAtom (Lit c)) p @ rest \<noteq> TQuant q # ts'"
    using assms(1) by (cases p) simp_all
  then have "items (TAtom (Lit c) # (map (\<lambda>c. TAtom (Lit c)) p @ rest))
               = and_then (Lit c, Once) (items (map (\<lambda>c. TAtom (Lit c)) p @ rest))"
    by (rule items_atom_once)
  with Cons show ?case by (simp add: and_then_def literally_def)
qed

lemma re_compile_escaped: "re_compile (re_escape p) = Compiled (literally p)"
proof -
  have t: "tokens (re_escape p) = map (\<lambda>c. TAtom (Lit c)) p"
    using tokens_re_escape[of p "[]"] by simp
  have i: "items (map (\<lambda>c. TAtom (Lit c)) p @ []) = Compiled (literally p @ [])"
    by (rule items_literals) simp_all
  have "TUnmodelled \<notin> set (tokens (re_escape p))" unfolding t by auto
  with i show ?thesis by (simp add: re_compile_def t)
qed

lemma re_compile_anchored:
  "re_compile (CHR ''^'' # re_escape p @ ''$'') = Compiled ((Bol, Once) # literally p @ [(Eol, Once)])"
proof -
  have d: "tokens ''$'' = [TAtom Eol]" by (simp add: backslash_def plain_def)
  have c: "CHR ''^'' \<noteq> backslash" by (simp add: backslash_def)
  have t: "tokens (CHR ''^'' # re_escape p @ ''$'') = TAtom Bol # map (\<lambda>c. TAtom (Lit c)) p @ [TAtom Eol]"
    unfolding tokens_plain[OF c] tokens_re_escape d by (simp add: plain_def)
  have l: "items (map (\<lambda>c. TAtom (Lit c)) p @ [TAtom Eol]) = Compiled (literally p @ [(Eol, Once)])"
    by (rule items_literals) (simp_all add: and_then_def)
  have "\<forall>q ts'. map (\<lambda>c. TAtom (Lit c)) p @ [TAtom Eol] \<noteq> TQuant q # ts'"
    by (cases p) simp_all
  then have i: "items (TAtom Bol # map (\<lambda>c. TAtom (Lit c)) p @ [TAtom Eol])
             = and_then (Bol, Once) (items (map (\<lambda>c. TAtom (Lit c)) p @ [TAtom Eol]))"
    by (rule items_atom_once)
  have "TUnmodelled \<notin> set (tokens (CHR ''^'' # re_escape p @ ''$''))"
    unfolding t by auto
  then show ?thesis
    unfolding re_compile_def t i l by (simp add: and_then_def)
qed

lemma lower_char_newline: "lower_char d = newline \<longleftrightarrow> d = newline"
proof
  assume a: "lower_char d = newline"
  show "d = newline"
  proof (cases "65 \<le> (of_char d :: nat) \<and> (of_char d :: nat) \<le> 90")
    case True
    then have "lower_char d = char_of ((of_char d :: nat) + 32)" by (simp add: lower_char_def)
    then have "(of_char (lower_char d) :: nat) = ((of_char d :: nat) + 32) mod 256" by simp
    with True have "(of_char (lower_char d) :: nat) \<ge> 97" by simp
    with a show ?thesis by (simp add: newline_def)
  next
    case False
    with a show ?thesis by (auto simp: lower_char_def Let_def)
  qed
next
  assume "d = newline"
  then show "lower_char d = newline" by (simp add: lower_char_def newline_def)
qed

lemma match_here_literally: "match_here (literally p) st s = prefix (lower p) (lower s)"
proof (induction p arbitrary: st s)
  case Nil
  then show ?case by (simp add: literally_def lower_def)
next
  case (Cons c p)
  have l: "literally (c # p) = (Lit c, Once) # literally p" by (simp add: literally_def)
  show ?case
  proof (cases s)
    case Nil
    then show ?thesis by (simp add: l lower_def)
  next
    case (Cons d ds)
    have "match_here (literally (c # p)) st (d # ds) = (lower_char c = lower_char d \<and> match_here (literally p) False ds)"
      by (simp add: l)
    also have "\<dots> = prefix (lower (c # p)) (lower (d # ds))"
      by (simp add: Cons.IH lower_def)
    finally show ?thesis using Cons by simp
  qed
qed

lemma search_from_literally: "search_from (literally p) st s = sublist (lower p) (lower s)"
proof (induction s arbitrary: st)
  case Nil
  then show ?case by (simp add: match_here_literally lower_def)
next
  case (Cons d ds)
  have "search_from (literally p) st (d # ds) = (prefix (lower p) (lower (d # ds)) \<or> sublist (lower p) (lower ds))"
    by (simp add: match_here_literally Cons.IH)
  also have "\<dots> = sublist (lower p) (lower (d # ds))"
    by (simp add: lower_def sublist_Cons_right)
  finally show ?case .
qed

lemma match_here_literally_eol:
  "match_here (literally p @ [(Eol, Once)]) st s
     = (lower s = lower p \<or> lower s = lower p @ [newline])"
proof (induction p arbitrary: st s)
  case Nil
  have "(s = [] \<or> s = [newline]) = (lower s = [] \<or> lower s = [newline])"
  proof (cases s)
    case Nil then show ?thesis by (simp add: lower_def)
  next
    case (Cons d ds)
    then show ?thesis by (auto simp: lower_def lower_char_newline)
  qed
  then show ?case by (simp add: literally_def lower_def)
next
  case (Cons c p)
  have l: "literally (c # p) @ [(Eol, Once)] = (Lit c, Once) # literally p @ [(Eol, Once)]"
    by (simp add: literally_def)
  show ?case
  proof (cases s)
    case Nil
    then show ?thesis by (simp add: l lower_def)
  next
    case (Cons d ds)
    have "match_here (literally (c # p) @ [(Eol, Once)]) st (d # ds)
            = (lower_char c = lower_char d \<and> match_here (literally p @ [(Eol, Once)]) False ds)"
      by (simp add: l)
    also have "\<dots> = (lower (d # ds) = lower (c # p) \<or> lower (d # ds) = lower (c # p) @ [newline])"
      by (auto simp: Cons.IH lower_def)
    finally show ?thesis using Cons by simp
  qed
qed

lemma search_from_bol_late: "search_from ((Bol, q) # r) False s = False"
  by (induction s) simp_all

lemma search_from_anchored:
  "search_from ((Bol, Once) # literally p @ [(Eol, Once)]) True s
     = (lower s = lower p \<or> lower s = lower p @ [newline])"
  by (cases s) (simp_all add: match_here_literally_eol search_from_bol_late)

lemma re_search_escaped: "re_search (sanitize_for_regex p) s = Found (sublist (lower p) (lower s))"
  by (simp add: re_search_def sanitize_for_regex_def re_compile_escaped search_from_literally)

lemma re_search_anchored:
  "re_search (CHR ''^'' # sanitize_for_regex p @ ''$'') s
     = Found (lower s = lower p \<or> lower s = lower p @ [newline])"
  by (simp add: re_search_def sanitize_for_regex_def re_compile_anchored search_from_anchored)

lemma try_rule_literal: "try_rule pd l = Found (literal_match pd l)"
  by (simp add: try_rule_def literal_match_def Let_def re_search_escaped re_search_anchored)


text \<open>
  Unescaped, the same patterns would be read as expressions: \<open>e-?mail\<close> is found in
  \<open>Your Email Address\<close>, and a pattern that starts with \<open>*\<close> is an error.
\<close>

lemma unescaped_pattern_examples:
  "re_search ''e-?mail'' ''Your Email Address'' = Found True"
  "re_search (sanitize_for_regex ''e-?mail'') ''Your Email Address'' = Found False"
  "re_search ''*mail'' ''Your Email Address'' = Raises_re_error"
  "re_search (sanitize_for_regex ''*mail'') ''Your *Mail Address'' = Found True"
  by code_simp+

section \<open>Properties of Strategy B\<close>

lemma apply_rules_result:
  "\<exists>b' s'. apply_rules pds c l e ((b, s), out) = Inr ((b', s'), out) \<and>
     (b' = b \<or> (b' = Some e \<and> (\<exists>pd\<in>set pds. try_rule pd l = Found True)))"
proof (induction pds arbitrary: b s)
  case Nil
  then show ?case by simp
next
  case (Cons pd pds)
  show ?case
  proof (cases "literal_match pd l \<and> score pd > s")
    case True
    then have "apply_rules (pd # pds) c l e ((b, s), out) = apply_rules pds c l e ((Some e, score pd), out)"
      by (simp add: try_rule_literal)
    moreover from True have "try_rule pd l = Found True" by (simp add: try_rule_literal)
    ultimately show ?thesis using Cons[of "Some e" "score pd"] by auto
  next
    case False
    then have "apply_rules (pd # pds) c l e ((b, s), out) = apply_rules pds c l e ((b, s), out)"
      by (cases "literal_match pd l") (simp_all add: try_rule_literal)
    then show ?thesis using Cons[of b s] by auto
  qed
qed

lemma scan_labels_regex_result:
  "\<exists>b' s'. scan_labels_regex rules fm used c ((b, s), out) = Inr ((b', s'), out) \<and>
     (b' = b \<or> (\<exists>l e. b' = Some e \<and> (l, e) \<in> set fm \<and> e \<notin> used \<and>
                  (\<exists>pd\<in>set (rules_for rules c). try_rule pd l = Found True)))"
proof (induction fm arbitrary: b s)
  case Nil
  then show ?case by simp
next
  case (Cons p fm)
  obtain l e where p: "p = (l, e)" by (cases p)
  show ?case
  proof (cases "e \<in> used")
    case True
    then have "scan_labels_regex rules (p # fm) used c ((b, s), out) = scan_labels_regex rules fm used c ((b, s), out)"
      by (simp add: p)
    then show ?thesis using Cons[of b s] by auto
  next
    case False
    from apply_rules_result[of "rules_for rules c" c l e b s out]
    obtain b1 s1 where a: "apply_rules (rules_for rules c) c l e ((b, s), out) = Inr ((b1, s1), out)"
      and a': "b1 = b \<or> (b1 = Some e \<and> (\<exists>pd\<in>set (rules_for rules c). try_rule pd l = Found True))"
      by blast
    from False a have eq: "scan_labels_regex rules (p # fm) used c ((b, s), out) = scan_labels_regex rules fm used c ((b1, s1), out)"
      by (simp add: p)
    from Cons[of b1 s1]
    obtain b' s' where r: "scan_labels_regex rules fm used c ((b1, s1), out) = Inr ((b', s'), out)"
      and r': "b' = b1 \<or> (\<exists>l e. b' = Some e \<and> (l, e) \<in> set fm \<and> e \<notin> used \<and>
                  (\<exists>pd\<in>set (rules_for rules c). try_rule pd l = Found True))"
      by blast
    have "b' = b \<or> (\<exists>l e. b' = Some e \<and> (l, e) \<in> set (p # fm) \<and> e \<notin> used \<and>
                  (\<exists>pd\<in>set (rules_for rules c). try_rule pd l = Found True))"
    proof (cases "b' = b1")
      case True
      with a' False p show ?thesis by auto
    next
      case F: False
      with r' obtain l2 e2 where "b' = Some e2" "(l2, e2) \<in> set fm" "e2 \<notin> used"
         "\<exists>pd\<in>set (rules_for rules c). try_rule pd l2 = Found True" by blast
      then have "b' = Some e2 \<and> (l2, e2) \<in> set (p # fm) \<and> e2 \<notin> used \<and>
                  (\<exists>pd\<in>set (rules_for rules c). try_rule pd l2 = Found True)" by simp
      then show ?thesis by blast
    qed
    with eq r show ?thesis by simp
  qed
qed

lemma match_columns_regex_result:
  "\<exists>m' u'. match_columns_regex rules fm cols ((m, u), out) = Inr ((m', u'), out) \<and>
     (assignment_ok (m, u) \<longrightarrow> assignment_ok (m', u')) \<and>
     (\<forall>c. c \<notin> set cols \<or> unmatched rules fm c \<longrightarrow> map_of m' c = map_of m c)"
proof (induction cols arbitrary: m u)
  case Nil
  then show ?case by simp
next
  case (Cons col cols)
  from scan_labels_regex_result[of rules fm u col None 0 out]
  obtain b s where sc: "scan_labels_regex rules fm u col ((None, 0), out) = Inr ((b, s), out)"
    and sc': "b = None \<or> (\<exists>l e. b = Some e \<and> (l, e) \<in> set fm \<and> e \<notin> u \<and>
                  (\<exists>pd\<in>set (rules_for rules col). try_rule pd l = Found True))"
    by blast
  show ?case
  proof (cases "\<exists>e. b = Some e \<and> truthy e")
    case False
    then have "match_columns_regex rules fm (col # cols) ((m, u), out) = match_columns_regex rules fm cols ((m, u), out)"
      using sc by (cases b) auto
    then show ?thesis using Cons[of m u] by auto
  next
    case True
    then obtain e where e: "b = Some e" "truthy e" by blast
    with sc' obtain l where l: "(l, e) \<in> set fm" "e \<notin> u"
        "\<exists>pd\<in>set (rules_for rules col). try_rule pd l = Found True" by auto
    from e sc have eq: "match_columns_regex rules fm (col # cols) ((m, u), out)
        = match_columns_regex rules fm cols ((AList.update col e m, insert e u), out)"
      by simp
    from Cons[of "AList.update col e m" "insert e u"]
    obtain m' u' where r: "match_columns_regex rules fm cols ((AList.update col e m, insert e u), out) = Inr ((m', u'), out)"
      and ok: "assignment_ok (AList.update col e m, insert e u) \<longrightarrow> assignment_ok (m', u')"
      and keep: "\<forall>c. c \<notin> set cols \<or> unmatched rules fm c \<longrightarrow> map_of m' c = map_of (AList.update col e m) c"
      by blast
    have "\<not> unmatched rules fm col" using l by (auto simp: unmatched_def)
    then have "\<forall>c. c \<notin> set (col # cols) \<or> unmatched rules fm c \<longrightarrow> map_of m' c = map_of m c"
      using keep by (auto simp: update_conv')
    moreover have "assignment_ok (m, u) \<longrightarrow> assignment_ok (m', u')"
      using ok l(2) by (auto simp: assignment_ok_update)
    ultimately show ?thesis using eq r by simp
  qed
qed

lemma finds_returns:
  "\<exists>m. find_matching_keys_with_regex fm cols (Loaded rules) = Inr ([], m)"
proof -
  from match_columns_regex_result[of rules fm cols "[]" "{}" "[]"]
  obtain m u where "match_columns_regex rules fm cols (([], {}), []) = Inr ((m, u), [])" by blast
  then show ?thesis by (simp add: find_matching_keys_with_regex_def)
qed

subsection \<open>The rule patterns are text\<close>




subsection \<open>The handler for invalid patterns is never entered\<close>

text \<open>
  C10. Every pattern reaches \<open>re.search\<close> escaped: the search is a search for the
  pattern's text that ignores case, each match type comes to a plain text comparison,
  no search raises \<open>re.error\<close>, and a run prints no warning.
\<close>

theorem escaped_pattern_never_raises:
  "re_search (sanitize_for_regex text) s = Found (sublist (lower text) (lower s)) \<and>
   try_rule pd form_label = Found (literal_match pd form_label) \<and>
   try_rule pd form_label \<noteq> Raises_re_error \<and>
   (\<exists>m. find_matching_keys_with_regex fm cols (Loaded rules) = Inr ([], m))"
  using finds_returns[of fm cols rules]
  by (simp add: re_search_escaped try_rule_literal)

section \<open>Columns without a candidate\<close>



section \<open>One identifier, one column\<close>

text \<open>
  Strategies A and B: two columns of the returned mapping never share an identifier, and
  what an earlier column was given is not changed by the columns after it.
\<close>

lemma find_matching_keys_unique:
  assumes "map_of (find_matching_keys fm cols) c1 = Some e" "map_of (find_matching_keys fm cols) c2 = Some e"
  shows "c1 = c2"
proof -
  have "assignment_ok ([], {})" by (simp add: assignment_ok_def)
  then have "assignment_ok (match_columns fm ([], {}) cols)" by (rule match_columns_ok)
  from assignment_ok_inj[OF this] assms show ?thesis by (simp add: find_matching_keys_def)
qed

lemma find_matching_keys_first_keeps:
  assumes "c \<notin> set post"
  shows "map_of (find_matching_keys fm (pre @ post)) c = map_of (find_matching_keys fm pre) c"
proof -
  have "match_columns fm ([], {}) (pre @ post) = match_columns fm (match_columns fm ([], {}) pre) post"
    by (simp add: match_columns_def)
  with assms show ?thesis by (simp add: find_matching_keys_def match_columns_other)
qed

lemma find_matching_keys_with_regex_unique:
  assumes "find_matching_keys_with_regex fm cols patterns_file = Inr (out, m)"
    and "map_of m c1 = Some e" "map_of m c2 = Some e"
  shows "c1 = c2"
proof (cases patterns_file)
  case (Loaded rules)
  from match_columns_regex_result[of rules fm cols "[]" "{}" "[]"]
  obtain m' u' where r: "match_columns_regex rules fm cols (([], {}), []) = Inr ((m', u'), [])"
    and ok: "assignment_ok ([], {}) \<longrightarrow> assignment_ok (m', u')" by blast
  from r assms(1) Loaded have "m = m'" by (simp add: find_matching_keys_with_regex_def)
  moreover from ok have "assignment_ok (m', u')" by (simp add: assignment_ok_def)
  ultimately show ?thesis using assignment_ok_inj[of "(m', u')" c1 e c2] assms(2,3) by simp
next
  case File_not_found
  with assms show ?thesis by (simp add: find_matching_keys_with_regex_def)
next
  case Invalid_json
  with assms show ?thesis by (simp add: find_matching_keys_with_regex_def)
qed

text \<open>
  C1. No identifier is assigned to more than one column. Strategy C does not keep to it:
  the loop that checks the model's entries prints that an identifier is already used and
  leaves the entry in the mapping, so two columns come back with \<open>entry.1\<close>.
\<close>

theorem gemini_duplicate_identifier_kept:
  "find_matching_keys_with_gemini [(''Work email'', Visible ''entry.1''), (''Private email'', Visible ''entry.2'')]
       [''Email'', ''Mail'']
       (\<lambda>prompt. Json_object [(''Email'', JString ''entry.1''), (''Mail'', JString ''entry.1'')])
     = ([Entry_id_already_used ''entry.1''],
        [(''Email'', From_model (JString ''entry.1'')), (''Mail'', From_model (JString ''entry.1''))])"
  by (simp add: find_matching_keys_with_gemini_def)

section \<open>Properties of Strategy C\<close>

subsection \<open>Entries the check warns about\<close>

text \<open>
  C4. An entry of the model's answer whose value is not an identifier, or whose
  identifier an earlier entry already has, should not be in the returned mapping. Both
  kinds are still there: the warnings are printed and the mapping is returned whole.
\<close>

theorem gemini_invalid_entry_kept:
  "find_matching_keys_with_gemini [(''Your name'', Visible ''entry.1''), (''Your email'', Visible ''entry.2'')]
       [''Name'', ''Email'', ''Contact'']
       (\<lambda>prompt. Json_object [(''Name'', JString ''Your name''), (''Email'', JString ''entry.2''),
                               (''Contact'', JString ''entry.2'')])
     = ([Invalid_entry_id (JString ''Your name'') ''Name'', Entry_id_already_used ''entry.2''],
        [(''Name'', From_model (JString ''Your name'')), (''Email'', From_model (JString ''entry.2'')),
         (''Contact'', From_model (JString ''entry.2''))])"
  by (simp add: find_matching_keys_with_gemini_def)

subsection \<open>Hidden fields come back after the delegated pass\<close>

lemma add_hidden_other:
  "\<forall>l v. (l, Hidden k v) \<notin> set fm \<Longrightarrow> map_of (add_hidden fm m) k = map_of m k"
proof (induction fm arbitrary: m)
  case Nil
  then show ?case by simp
next
  case (Cons p fm)
  obtain l i where p: "p = (l, i)" by (cases p)
  from Cons.prems have rest: "\<forall>l v. (l, Hidden k v) \<notin> set fm" by simp
  show ?case
  proof (cases i)
    case (Visible e)
    with p Cons.IH[OF rest] show ?thesis by simp
  next
    case (Hidden n v)
    with Cons.prems p have "n \<noteq> k" by auto
    with p Hidden Cons.IH[OF rest, of "AList.update n (Hidden_field n v) m"] show ?thesis
      by (simp add: update_conv')
  qed
qed

lemma add_hidden_present:
  assumes "\<forall>l v'. (l, Hidden k v') \<in> set fm \<longrightarrow> v' = v"
    and "(\<exists>l. (l, Hidden k v) \<in> set fm) \<or> map_of m k = Some (Hidden_field k v)"
  shows "map_of (add_hidden fm m) k = Some (Hidden_field k v)"
  using assms
proof (induction fm arbitrary: m)
  case Nil
  then show ?case by simp
next
  case (Cons p fm)
  obtain l i where p: "p = (l, i)" by (cases p)
  from Cons.prems(1) have rest: "\<forall>l v'. (l, Hidden k v') \<in> set fm \<longrightarrow> v' = v" by simp
  show ?case
  proof (cases i)
    case (Visible e)
    with p Cons.prems(2) have "(\<exists>l. (l, Hidden k v) \<in> set fm) \<or> map_of m k = Some (Hidden_field k v)"
      by auto
    from Cons.IH[OF rest this] p Visible show ?thesis by simp
  next
    case (Hidden n v')
    show ?thesis
    proof (cases "n = k")
      case True
      with Cons.prems(1) p Hidden have "v' = v" by auto
      with True have "map_of (AList.update n (Hidden_field n v') m) k = Some (Hidden_field k v)"
        by (simp add: update_conv')
      then have "(\<exists>l. (l, Hidden k v) \<in> set fm) \<or> map_of (AList.update n (Hidden_field n v') m) k = Some (Hidden_field k v)"
        by simp
      from Cons.IH[OF rest this] p Hidden show ?thesis by simp
    next
      case False
      with p Hidden Cons.prems(2)
      have "(\<exists>l. (l, Hidden k v) \<in> set fm) \<or> map_of (AList.update n (Hidden_field n v') m) k = Some (Hidden_field k v)"
        by (auto simp: update_conv')
      from Cons.IH[OF rest this] p Hidden show ?thesis by simp
    qed
  qed
qed

lemma filtered_entry_ids_visible:
  "filtered_entry_ids (filter (\<lambda>(l, i). \<not> is_hidden i) fm) = filtered_entry_ids fm"
proof (induction fm)
  case Nil
  then show ?case by simp
next
  case (Cons p fm)
  obtain l i where p: "p = (l, i)" by (cases p)
  show ?case using Cons p by (cases i) (simp_all add: is_hidden_def)
qed

lemma filtered_entry_ids_sound:
  "(l, e) \<in> set (filtered_entry_ids fm) \<Longrightarrow> (l, Visible e) \<in> set fm \<and> prefix ''entry.'' e"
proof (induction fm)
  case Nil
  then show ?case by simp
next
  case (Cons p fm)
  obtain l' i where p: "p = (l', i)" by (cases p)
  show ?case using Cons p by (cases i) (auto split: if_splits)
qed

text \<open>
  C8, as written, for every field map with the hidden field \<open>entry.9\<close>: a hidden input
  that is itself named \<open>Email\<close> takes the key \<open>Email\<close> from the model's entry.
\<close>

theorem hidden_field_overrides_model_entry:
  "find_matching_keys_with_gemini
       [(''Email'', Hidden ''Email'' ''x''), (''entry.9'', Hidden ''entry.9'' ''abc'')]
       [''Email'']
       (\<lambda>prompt. Json_object [(''Email'', JString ''entry.2'')])
     = ([], [(''Email'', Hidden_field ''Email'' ''x''), (''entry.9'', Hidden_field ''entry.9'' ''abc'')])"
  by (simp add: find_matching_keys_with_gemini_def)

text \<open>
  C8, as the code has it. When the model answers with the object that maps \<open>Email\<close> to
  \<open>entry.2\<close>, the field map holds the hidden field \<open>entry.9\<close> with value \<open>abc\<close> and no
  other value for that name, and no hidden field is named \<open>Email\<close>, the returned mapping
  holds both entries. The prompt is the one the visible fields alone would give.
\<close>

theorem gemini_round_trip:
  assumes "gemini (build_prompt fm cols) = Json_object [(''Email'', JString ''entry.2'')]"
    and "(''entry.9'', Hidden ''entry.9'' ''abc'') \<in> set fm"
    and "\<forall>l v. (l, Hidden ''entry.9'' v) \<in> set fm \<longrightarrow> v = ''abc''"
    and "\<forall>l v. (l, Hidden ''Email'' v) \<notin> set fm"
  shows "map_of (snd (find_matching_keys_with_gemini fm cols gemini)) ''Email''
           = Some (From_model (JString ''entry.2'')) \<and>
         map_of (snd (find_matching_keys_with_gemini fm cols gemini)) ''entry.9''
           = Some (Hidden_field ''entry.9'' ''abc'') \<and>
         build_prompt fm cols = build_prompt (filter (\<lambda>(l, i). \<not> is_hidden i) fm) cols"
proof -
  have r: "snd (find_matching_keys_with_gemini fm cols gemini)
             = add_hidden fm [(''Email'', From_model (JString ''entry.2''))]"
    using assms(1) by (simp add: find_matching_keys_with_gemini_def)
  have a: "map_of (add_hidden fm [(''Email'', From_model (JString ''entry.2''))]) ''Email''
             = Some (From_model (JString ''entry.2''))"
    using add_hidden_other[OF assms(4)] by simp
  have "(\<exists>l. (l, Hidden ''entry.9'' ''abc'') \<in> set fm) \<or>
          map_of [(''Email'', From_model (JString ''entry.2''))] ''entry.9'' = Some (Hidden_field ''entry.9'' ''abc'')"
    using assms(2) by blast
  from add_hidden_present[OF assms(3) this]
  have b: "map_of (add_hidden fm [(''Email'', From_model (JString ''entry.2''))]) ''entry.9''
             = Some (Hidden_field ''entry.9'' ''abc'')" .
  have c: "build_prompt fm cols = build_prompt (filter (\<lambda>(l, i). \<not> is_hidden i) fm) cols"
    by (simp add: build_prompt_def filtered_entry_ids_visible)
  from a b c show ?thesis unfolding r by simp
qed

text \<open>A field map with one visible and one hidden field.\<close>

theorem gemini_round_trip_witness:
  "map_of (snd (find_matching_keys_with_gemini
       [(''Your email'', Visible ''entry.2''), (''entry.9'', Hidden ''entry.9'' ''abc'')] [''Email'']
       (\<lambda>prompt. Json_object [(''Email'', JString ''entry.2'')]))) ''Email''
     = Some (From_model (JString ''entry.2'')) \<and>
   map_of (snd (find_matching_keys_with_gemini
       [(''Your email'', Visible ''entry.2''), (''entry.9'', Hidden ''entry.9'' ''abc'')] [''Email'']
       (\<lambda>prompt. Json_object [(''Email'', JString ''entry.2'')]))) ''entry.9''
     = Some (Hidden_field ''entry.9'' ''abc'')"
proof -
  let ?fm = "[(''Your email'', Visible ''entry.2''), (''entry.9'', Hidden ''entry.9'' ''abc'')]"
  let ?g = "\<lambda>prompt :: string. Json_object [(''Email'', JString ''entry.2'')]"
  have 1: "?g (build_prompt ?fm [''Email'']) = Json_object [(''Email'', JString ''entry.2'')]" by simp
  have 2: "(''entry.9'', Hidden ''entry.9'' ''abc'') \<in> set ?fm" by simp
  have 3: "\<forall>l v. (l, Hidden ''entry.9'' v) \<in> set ?fm \<longrightarrow> v = ''abc''" by simp
  have 4: "\<forall>l v. (l, Hidden ''Email'' v) \<notin> set ?fm" by simp
  from gemini_round_trip[of ?g ?fm "[''Email'']", OF 1 2 3 4] show ?thesis by simp
qed

section \<open>Properties of the row submitters\<close>

subsection \<open>A failed row and the rows after it\<close>

text \<open>
  test.py goes through every row whatever the network answers: the result is the
  conjunction of the rows' outcomes and one line is printed per row.
\<close>

lemma submit_rows_test_continues:
  "submit_rows_test post fm i rows (ok, out) =
     (ok \<and> (\<forall>k<length rows. accepted (post (i + k) (form_data_test fm (rows ! k)))),
      out @ map (\<lambda>k. if accepted (post (i + k) (form_data_test fm (rows ! k)))
                      then Submitted (i + k) (rows ! k) else Submit_failed (i + k) (rows ! k))
              [0..<length rows])"
proof (induction rows arbitrary: i ok out)
  case Nil
  then show ?case by simp
next
  case (Cons row rows)
  have split: "[0..<length (row # rows)] = 0 # map Suc [0..<length rows]"
    by (simp add: upt_conv_Cons map_Suc_upt del: upt_Suc)
  have all: "(\<forall>k<length (row # rows). P k) = (P 0 \<and> (\<forall>k<length rows. P (Suc k)))" for P
    by (auto simp: less_Suc_eq_0_disj)
  show ?case
    unfolding split all
    by (cases "post i (form_data_test fm row)")
       (simp_all add: Cons.IH accepted_def comp_def)
qed

text \<open>The three rows of the specification, the second one failing, in test.py and in test2.py.\<close>

lemma three_rows_test:
  "csv_to_google_form_test (\<lambda>i form_data. if i = 1 then Transport_error else Accepted 200)
       (Some [[(''Name'', ''Ada'')], [(''Name'', ''Grace'')], [(''Name'', ''Edsger'')]])
       [(''Name'', ''entry.1'')]
     = (False, [Submitted 0 [(''Name'', ''Ada'')], Submit_failed 1 [(''Name'', ''Grace'')],
                Submitted 2 [(''Name'', ''Edsger'')]])"
  by (simp add: csv_to_google_form_test_def)

lemma three_rows_test2:
  "csv_to_google_form_test2 (\<lambda>user_info. Some ())
       (\<lambda>i cj form_data. if i = 1 then Transport_error else Accepted 200)
       (Some [[(''Name'', ''Ada'')], [(''Name'', ''Grace'')], [(''Name'', ''Edsger'')]])
       [(''Name'', Visible ''entry.1'')]
       (Some [(''default'', ())])
     = (False, [Submitted 0 [(''Name'', ''Ada'')], Submit_failed 1 [(''Name'', ''Grace'')],
                Submitted 2 [(''Name'', ''Edsger'')]])"
  by (simp add: csv_to_google_form_test2_def row_get_def)

text \<open>
  C2. A row whose submission fails is the only row marked failed, and the rows after it
  are still submitted. In test2.py a transport error on the first submission of the run
  ends the run: the handler reads \<open>response\<close>, which no earlier row has bound, and the
  second row is never sent.
\<close>

theorem first_row_transport_error_stops_test2:
  "csv_to_google_form_test2 (\<lambda>user_info. Some ())
       (\<lambda>i cj form_data. if i = 0 then Transport_error else Accepted 200)
       (Some [[(''Name'', ''Ada'')], [(''Name'', ''Grace'')]])
       [(''Name'', Visible ''entry.1'')]
       (Some [(''default'', ())])
     = (False, [Submit_failed 0 [(''Name'', ''Ada'')], Unexpected_error])"
  by (simp add: csv_to_google_form_test2_def row_get_def)

subsection \<open>The payload of a row\<close>










section \<open>Properties of the form introspectors\<close>

text \<open>
  C5, as written: a fetched page without fields gives a value other than the one a failed
  fetch gives. In test.py and bot.py both give \<open>None\<close>.
\<close>

theorem empty_page_looks_like_fetch_failure:
  "get_form_entry_ids (Page []) = get_form_entry_ids Fetch_failed"
  by (simp add: get_form_entry_ids_def)

text \<open>
  C5, as the code has it. test2.py returns a field map for every fetched document, the
  empty one when nothing is recognised, and \<open>None\<close> only when the fetch fails. test.py
  and bot.py return \<open>None\<close> for a fetched page exactly when no field was recognised on
  it, the value they return for a failed fetch.
\<close>

theorem only_test2_tells_empty_from_failure:
  "get_form_entry_ids_test2 (Page doc) \<noteq> get_form_entry_ids_test2 Fetch_failed \<and>
   get_form_entry_ids_test2 (Page ([], [])) = Some [] \<and>
   (get_form_entry_ids (Page list_items) = get_form_entry_ids Fetch_failed) = (scan_listitems list_items [] = [])"
  by (cases doc) (simp add: get_form_entry_ids_test2_def get_form_entry_ids_def Let_def)

end
